theory Spec2Isabelle
  imports Main
begin

section \<open>Files handed over by the host\<close>

text \<open>
  A \<open>TFile\<close> of the host is referenced by the plugin through its \<open>path\<close>, \<open>name\<close>,
  \<open>extension\<close>, the path of its parent folder (\<open>file.parent?.path\<close>, absent when the
  parent is null) and its \<open>stat\<close> (modification time and size in bytes, both
  non-negative integers).
\<close>

record FileStats =
  mtime :: nat
  size_bytes :: nat

record TFile =
  path :: string
  name :: string
  extension :: string
  parent :: "string option"
  stat :: FileStats

section \<open>The processing queue (queue.ts)\<close>

text \<open>
  The two fields of the class are \<open>queue\<close> and \<open>processing\<close>. The model adds what the
  JavaScript run time keeps: \<open>inflight\<close> lists the callbacks that were invoked and are still
  awaited, each by its own suspended \<open>processNext\<close>, \<open>invoked\<close> is the history of callback
  invocations, oldest first, and \<open>logged\<close> collects the \<open>console.error\<close> lines of the catch
  block (the path of the file and the error).
\<close>

record ProcessingQueue =
  queue :: "TFile list"
  processing :: bool
  inflight :: "TFile list"
  invoked :: "TFile list"
  logged :: "(string \<times> string) list"

definition init :: ProcessingQueue where
  "init = \<lparr>queue = [], processing = False, inflight = [], invoked = [], logged = []\<rparr>"

text \<open>
  \<open>processNext\<close> up to its first suspension: with an empty queue it resets the flag and
  returns; otherwise it sets the flag, shifts the head and invokes the callback on it, which
  it then awaits. The test \<open>if (file)\<close> always succeeds there: the queue is not empty and
  a file object is truthy.
\<close>

definition processNext :: "ProcessingQueue \<Rightarrow> ProcessingQueue" where
  "processNext q =
     (case queue q of
        [] \<Rightarrow> q\<lparr>processing := False\<rparr>
      | file # rest \<Rightarrow>
          q\<lparr>queue := rest, processing := True,
            inflight := inflight q @ [file], invoked := invoked q @ [file]\<rparr>)"

definition add :: "TFile \<Rightarrow> ProcessingQueue \<Rightarrow> ProcessingQueue" where
  "add file q =
     (if find (\<lambda>f. path f = path file) (queue q) \<noteq> None then q
      else
        let q1 = q\<lparr>queue := queue q @ [file]\<rparr>
        in if \<not> processing q1 then processNext q1 else q1)"

definition clear :: "ProcessingQueue \<Rightarrow> ProcessingQueue" where
  "clear q = q\<lparr>queue := [], processing := False\<rparr>"

definition getQueueLength :: "ProcessingQueue \<Rightarrow> nat" where
  "getQueueLength q = length (queue q)"

text \<open>
  The awaited callback settles: it resolves, or it rejects with an error.
\<close>

datatype settled = Resolved | Rejected string

text \<open>
  The rest of \<open>processNext\<close> after the await, for the \<open>i\<close>-th callback in flight: a
  rejection is caught and logged, and in both cases \<open>processNext\<close> is called again. Nothing
  settles when no callback with that index is in flight.
\<close>

definition resume :: "nat \<Rightarrow> settled \<Rightarrow> ProcessingQueue \<Rightarrow> ProcessingQueue" where
  "resume i r q =
     (if i < length (inflight q) then
        let file = inflight q ! i;
            q1 = q\<lparr>inflight := take i (inflight q) @ drop (Suc i) (inflight q)\<rparr>;
            q2 = (case r of
                    Resolved \<Rightarrow> q1
                  | Rejected e \<Rightarrow> q1\<lparr>logged := logged q1 @ [(path file, e)]\<rparr>)
        in processNext q2
      else q)"

datatype event = Add TFile | Clear | Settle nat settled

fun step :: "event \<Rightarrow> ProcessingQueue \<Rightarrow> ProcessingQueue" where
  "step (Add file) q = add file q"
| "step Clear q = clear q"
| "step (Settle i r) q = resume i r q"

fun run :: "event list \<Rightarrow> ProcessingQueue \<Rightarrow> ProcessingQueue" where
  "run [] q = q"
| "run (e # es) q = run es (step e q)"

definition settles :: "(nat \<times> settled) list \<Rightarrow> event list" where
  "settles cs = map (\<lambda>(i, r). Settle i r) cs"

definition pending :: "TFile \<Rightarrow> ProcessingQueue \<Rightarrow> bool" where
  "pending file q = (\<exists>g \<in> set (queue q). path g = path file)"

definition mkFile :: "string \<Rightarrow> TFile" where
  "mkFile p = \<lparr>path = p, name = p, extension = [], parent = None,
               stat = \<lparr>mtime = 0, size_bytes = 0\<rparr>\<rparr>"

section \<open>Settings (settings.ts)\<close>

datatype action = NewNote | AppendSource

record HandwritingOCRSettings =
  apiKey :: string
  includeThumbnails :: bool
  noteFolder :: string
  imageFolder :: string
  enableAutoProcessing :: bool
  watchFolder :: string
  autoProcessingAction :: action

section \<open>Strings of the run time\<close>

text \<open>
  Strings are byte strings. \<open>toLowerCase\<close> maps the letters \<open>A\<close> to \<open>Z\<close> to lower case
  and leaves every other byte alone. \<open>dec\<close> is the decimal text that a template literal
  produces for a non-negative integer.
\<close>

definition lower_char :: "char \<Rightarrow> char" where
  "lower_char c =
     (let n = (of_char c :: nat) in if 65 \<le> n \<and> n \<le> 90 then char_of (n + 32) else c)"

definition toLowerCase :: "string \<Rightarrow> string" where
  "toLowerCase s = map lower_char s"

definition startsWith :: "string \<Rightarrow> string \<Rightarrow> bool" where
  "startsWith s p = (take (length p) s = p)"

definition endsWith :: "string \<Rightarrow> string \<Rightarrow> bool" where
  "endsWith s e = (length e \<le> length s \<and> drop (length s - length e) s = e)"

definition digit :: "nat \<Rightarrow> char" where
  "digit d = char_of (48 + d)"

fun dec :: "nat \<Rightarrow> string" where
  "dec n = (if n < 10 then [digit n] else dec (n div 10) @ [digit (n mod 10)])"

declare dec.simps [simp del]

datatype js_error = SyntaxError | TypeError | Error string

section \<open>utils.ts\<close>

definition SUPPORTED_EXTENSIONS :: "string list" where
  "SUPPORTED_EXTENSIONS =
     [''.jpg'', ''.jpeg'', ''.png'', ''.gif'', ''.bmp'', ''.tiff'', ''.tif'',
      ''.heic'', ''.webp'', ''.pdf'']"

text \<open>The function \<open>isSupportedFile\<close> of utils.ts, which takes a file name.\<close>

definition isSupportedFile_utils :: "string \<Rightarrow> bool" where
  "isSupportedFile_utils fileName =
     (let lowerName = toLowerCase fileName
      in list_ex (\<lambda>ext. endsWith lowerName ext) SUPPORTED_EXTENSIONS)"

definition validateFileSize :: "TFile \<Rightarrow> bool" where
  "validateFileSize file =
     (let maxSize = 20 * 1024 * 1024 in size_bytes (stat file) \<le> maxSize)"

definition getFileHash :: "TFile \<Rightarrow> string" where
  "getFileHash file = dec (mtime (stat file)) @ ''-'' @ dec (size_bytes (stat file))"

definition metadataFileName :: "string \<Rightarrow> string" where
  "metadataFileName fileName = ''.'' @ fileName @ ''.ocr-processed''"

definition getMetadataFilePath :: "TFile \<Rightarrow> string" where
  "getMetadataFilePath file =
     (let dirPath = (case parent file of None \<Rightarrow> '''' | Some p \<Rightarrow> p);
          fileName = name file
      in if dirPath \<noteq> '''' then dirPath @ ''/'' @ metadataFileName fileName
         else metadataFileName fileName)"

text \<open>
  The host takes the extension of a file from its name: the text after the last dot, and
  nothing when the name has no dot.
\<close>

definition extension_of :: "string \<Rightarrow> string" where
  "extension_of fileName =
     (if CHR ''.'' \<in> set fileName
      then rev (takeWhile (\<lambda>c. c \<noteq> CHR ''.'') (rev fileName)) else '''')"

section \<open>The vault and the sidecar records\<close>

text \<open>
  What \<open>JSON.parse\<close> returns. The members of an object are an association list with
  one entry per key; the numbers of the records are integers.
\<close>

datatype json =
    JNull
  | JBool bool
  | JNum int
  | JStr string
  | JArr "json list"
  | JObj "(string \<times> json) list"

text \<open>
  The text of a file of the vault is kept as what reading and parsing it gives:
  \<open>Unreadable e\<close> when \<open>vault.read\<close> rejects with \<open>e\<close>, \<open>Unparsable\<close> when
  \<open>JSON.parse\<close> throws on it, and \<open>Json j\<close> when it parses to \<open>j\<close>. So
  \<open>JSON.stringify\<close> of a value \<open>j\<close> is the text \<open>Json j\<close>.
\<close>

datatype file_text = Unreadable js_error | Unparsable | Json json

datatype abstract_file = FolderEntry | FileEntry file_text

type_synonym vault = "string \<rightharpoonup> abstract_file"

text \<open>
  Reading a property: on \<open>null\<close> it throws a TypeError; on an object it gives the member
  or \<open>undefined\<close> (\<open>None\<close>); the other values have no property of the names read here.
\<close>

fun member :: "json \<Rightarrow> string \<Rightarrow> js_error + json option" where
  "member JNull k = Inl TypeError"
| "member (JObj kvs) k = Inr (map_of kvs k)"
| "member _ k = Inr None"

datatype proc_status = StatusSuccess | StatusError

fun status_text :: "proc_status \<Rightarrow> string" where
  "status_text StatusSuccess = ''success''"
| "status_text StatusError = ''error''"

record ProcessedMetadata =
  processedAt :: nat
  fileHash :: string
  status :: proc_status
  errorMessage :: "string option"

text \<open>\<open>JSON.stringify(metadata, null, 2)\<close>: an undefined \<open>errorMessage\<close> is left out.\<close>

definition stringify :: "ProcessedMetadata \<Rightarrow> file_text" where
  "stringify metadata =
     Json (JObj ([(''processedAt'', JNum (int (processedAt metadata))),
                  (''fileHash'', JStr (fileHash metadata)),
                  (''status'', JStr (status_text (status metadata)))] @
                 (case errorMessage metadata of
                    None \<Rightarrow> []
                  | Some m \<Rightarrow> [(''errorMessage'', JStr m)])))"

text \<open>
  The two writes of the vault. \<open>io\<close> is the failure of the storage, if there is one;
  \<open>create\<close> also fails when the path is taken.
\<close>

definition vault_modify :: "js_error option \<Rightarrow> vault \<Rightarrow> string \<Rightarrow> file_text \<Rightarrow> js_error + vault" where
  "vault_modify io v p t = (case io of Some e \<Rightarrow> Inl e | None \<Rightarrow> Inr (v(p \<mapsto> FileEntry t)))"

definition vault_create :: "js_error option \<Rightarrow> vault \<Rightarrow> string \<Rightarrow> file_text \<Rightarrow> js_error + vault" where
  "vault_create io v p t =
     (if v p \<noteq> None then Inl (Error ''File already exists.'')
      else case io of Some e \<Rightarrow> Inl e | None \<Rightarrow> Inr (v(p \<mapsto> FileEntry t)))"

section \<open>The change detector and the metadata store (auto-processor.ts)\<close>

definition strip_slashes :: "string \<Rightarrow> string" where
  "strip_slashes s =
     rev (dropWhile (\<lambda>c. c = CHR ''/'') (rev (dropWhile (\<lambda>c. c = CHR ''/'') s)))"

definition isInWatchFolder :: "HandwritingOCRSettings \<Rightarrow> TFile \<Rightarrow> bool" where
  "isInWatchFolder settings file =
     (let watchFolder = strip_slashes (watchFolder settings);
          filePath = path file
      in startsWith filePath (watchFolder @ ''/'') \<or>
         (startsWith filePath watchFolder \<and> parent file = Some watchFolder))"

definition supportedExtensions :: "string list" where
  "supportedExtensions =
     [''jpg'', ''jpeg'', ''png'', ''gif'', ''bmp'', ''tiff'', ''tif'',
      ''heic'', ''webp'', ''pdf'']"

definition isSupportedFile :: "TFile \<Rightarrow> bool" where
  "isSupportedFile file = (toLowerCase (extension file) \<in> set supportedExtensions)"

text \<open>The body of the \<open>try\<close> block of \<open>isProcessed\<close>; \<open>Inl\<close> is a throw.\<close>

definition isProcessed_try :: "file_text \<Rightarrow> TFile \<Rightarrow> js_error + bool" where
  "isProcessed_try content file =
     (case content of
        Unreadable e \<Rightarrow> Inl e
      | Unparsable \<Rightarrow> Inl SyntaxError
      | Json metadata \<Rightarrow>
          (let currentHash = getFileHash file
           in (case member metadata ''fileHash'' of
                 Inl e \<Rightarrow> Inl e
               | Inr h \<Rightarrow>
                   (if h = Some (JStr currentHash)
                    then (case member metadata ''status'' of
                            Inl e \<Rightarrow> Inl e
                          | Inr s \<Rightarrow> Inr (s = Some (JStr ''success'')))
                    else Inr False))))"

definition isProcessed :: "vault \<Rightarrow> TFile \<Rightarrow> bool" where
  "isProcessed v file =
     (case v (getMetadataFilePath file) of
        Some (FileEntry content) \<Rightarrow>
          (case isProcessed_try content file of Inl error \<Rightarrow> False | Inr b \<Rightarrow> b)
      | _ \<Rightarrow> False)"

text \<open>
  \<open>markAsProcessed\<close> returns the vault and what the catch block logged. \<open>now\<close> is
  \<open>Date.now()\<close>.
\<close>

definition markAsProcessed ::
  "js_error option \<Rightarrow> nat \<Rightarrow> vault \<Rightarrow> TFile \<Rightarrow> proc_status \<Rightarrow> string option
     \<Rightarrow> vault \<times> js_error list" where
  "markAsProcessed io now v file st msg =
     (let metadataPath = getMetadataFilePath file;
          metadata = \<lparr>processedAt = now, fileHash = getFileHash file, status = st,
                      errorMessage = msg\<rparr>;
          written = (case v metadataPath of
                       Some (FileEntry old) \<Rightarrow> vault_modify io v metadataPath (stringify metadata)
                     | _ \<Rightarrow> vault_create io v metadataPath (stringify metadata))
      in case written of Inl error \<Rightarrow> (v, [error]) | Inr v' \<Rightarrow> (v', []))"

definition shouldProcess :: "HandwritingOCRSettings \<Rightarrow> vault \<Rightarrow> TFile \<Rightarrow> bool" where
  "shouldProcess settings v file =
     (if \<not> enableAutoProcessing settings \<or> watchFolder settings = '''' then False
      else if \<not> isInWatchFolder settings file then False
      else if \<not> isSupportedFile file then False
      else if \<not> validateFileSize file then False
      else \<not> isProcessed v file)"

text \<open>A configuration and a file of the watch folder, for concrete runs.\<close>

definition inbox_settings :: HandwritingOCRSettings where
  "inbox_settings =
     \<lparr>apiKey = ''key'', includeThumbnails = False, noteFolder = '''',
      imageFolder = ''OCR Thumbnails'', enableAutoProcessing = True,
      watchFolder = ''/Inbox/'', autoProcessingAction = NewNote\<rparr>"

definition scan_png :: TFile where
  "scan_png =
     \<lparr>path = ''Inbox/scan.PNG'', name = ''scan.PNG'', extension = ''PNG'',
      parent = Some ''Inbox'', stat = \<lparr>mtime = 1712, size_bytes = 2048\<rparr>\<rparr>"

definition scan_png_record :: TFile where
  "scan_png_record =
     \<lparr>path = ''Inbox/.scan.PNG.ocr-processed'', name = ''.scan.PNG.ocr-processed'',
      extension = ''ocr-processed'', parent = Some ''Inbox'',
      stat = \<lparr>mtime = 1713, size_bytes = 120\<rparr>\<rparr>"

section \<open>The remote client (api.ts)\<close>

text \<open>
  What \<open>requestUrl\<close> resolves with: the HTTP status and the parsed body, typed as the
  interface the code assigns it to. A request that rejects is \<open>Inl\<close>.
\<close>

record 'a Response =
  http_status :: nat
  body :: 'a

record UploadResponse =
  upload_id :: string
  upload_status :: string
  created_at :: string
  updated_at :: string

record DocumentStatus =
  doc_id :: string
  doc_status :: string
  pages :: "nat option"
  doc_error :: "string option"

record DocumentResult =
  result_id :: string
  file_name :: string
  result_action :: string
  page_count :: nat
  result_status :: string
  results :: "(nat \<times> string) list"
  thumbnails :: "(nat \<times> string) list option"
  result_error :: "string option"

definition uploadDocument :: "js_error + UploadResponse Response \<Rightarrow> js_error + string" where
  "uploadDocument reply =
     (case reply of
        Inl e \<Rightarrow> Inl e
      | Inr response \<Rightarrow>
          (if http_status response = 403 then Inl (Error ''Insufficient credits'')
           else if http_status response = 415 then Inl (Error ''Unsupported file type'')
           else if http_status response = 413 then Inl (Error ''File too large (max 20MB)'')
           else if http_status response = 401 then Inl (Error ''Invalid API key'')
           else if http_status response \<noteq> 201
             then Inl (Error (''Upload failed: '' @ dec (http_status response)))
           else Inr (upload_id (body response))))"

definition checkStatus :: "js_error + DocumentStatus Response \<Rightarrow> js_error + DocumentStatus" where
  "checkStatus reply =
     (case reply of
        Inl e \<Rightarrow> Inl e
      | Inr response \<Rightarrow>
          (if http_status response = 401 then Inl (Error ''Invalid API key'')
           else if http_status response \<noteq> 200
             then Inl (Error (''Status check failed: '' @ dec (http_status response)))
           else Inr (body response)))"

definition getResult :: "js_error + DocumentResult Response \<Rightarrow> js_error + DocumentResult" where
  "getResult reply =
     (case reply of
        Inl e \<Rightarrow> Inl e
      | Inr response \<Rightarrow>
          (if http_status response = 401 then Inl (Error ''Invalid API key'')
           else if http_status response \<noteq> 200
             then Inl (Error (''Failed to get result: '' @ dec (http_status response)))
           else (let data = body response
                 in (case result_error data of
                       None \<Rightarrow> Inr data
                     | Some e \<Rightarrow>
                         if e \<noteq> '''' then Inl (Error (''OCR failed: '' @ e)) else Inr data))))"

text \<open>
  The remote service as one run of \<open>processDocument\<close> sees it: the reply to the upload,
  the reply to the \<open>k\<close>-th status check (counted from 0) and the reply to the request for
  the result.
\<close>

record Remote =
  upload_reply :: "js_error + UploadResponse Response"
  status_reply :: "nat \<Rightarrow> js_error + DocumentStatus Response"
  result_reply :: "js_error + DocumentResult Response"

definition maxAttempts :: nat where
  "maxAttempts = 60"

text \<open>\<open>status.error || 'Processing failed'\<close>: an absent or empty text gives the fallback.\<close>

definition failure_message :: "string option \<Rightarrow> string" where
  "failure_message e =
     (case e of None \<Rightarrow> ''Processing failed''
      | Some m \<Rightarrow> if m \<noteq> '''' then m else ''Processing failed'')"

text \<open>
  The polling loop. \<open>now\<close> is the time in milliseconds that the timers have let pass since
  the upload, and \<open>polled\<close> lists the times of the status checks made so far; both are
  returned with the outcome.
\<close>

function poll_loop ::
  "Remote \<Rightarrow> nat \<Rightarrow> nat \<Rightarrow> nat list \<Rightarrow> (js_error + DocumentResult) \<times> nat list" where
  "poll_loop remote attempts now polled =
     (if attempts < maxAttempts then
        (case checkStatus (status_reply remote attempts) of
           Inl e \<Rightarrow> (Inl e, polled @ [now + 2000])
         | Inr st \<Rightarrow>
             (if doc_status st = ''processed''
                then (getResult (result_reply remote), polled @ [now + 2000])
              else if doc_status st = ''failed''
                then (Inl (Error (failure_message (doc_error st))), polled @ [now + 2000])
              else poll_loop remote (attempts + 1) (now + 2000) (polled @ [now + 2000])))
      else (Inl (Error ''Processing timeout''), polled))"
  by pat_completeness auto
termination
  by (relation "measure (\<lambda>(remote, attempts, now, polled). maxAttempts - attempts)") auto

declare poll_loop.simps [simp del]

definition processDocument :: "Remote \<Rightarrow> (js_error + DocumentResult) \<times> nat list" where
  "processDocument remote =
     (case uploadDocument (upload_reply remote) of
        Inl e \<Rightarrow> (Inl e, [])
      | Inr documentId \<Rightarrow> poll_loop remote 0 0 [])"

text \<open>A status check that lets the loop go on: it succeeds and reports \<open>processing\<close>.\<close>

definition still_processing :: "Remote \<Rightarrow> nat \<Rightarrow> bool" where
  "still_processing remote k =
     (case checkStatus (status_reply remote k) of
        Inl e \<Rightarrow> False
      | Inr st \<Rightarrow> doc_status st = ''processing'')"

text \<open>
  A status check after which the loop goes on: it succeeds and reports a status that is
  neither \<open>processed\<close> nor \<open>failed\<close> (\<open>new\<close> or \<open>processing\<close>, for instance).
\<close>

definition keeps_polling :: "Remote \<Rightarrow> nat \<Rightarrow> bool" where
  "keeps_polling remote k =
     (case checkStatus (status_reply remote k) of
        Inl e \<Rightarrow> False
      | Inr st \<Rightarrow> doc_status st \<noteq> ''processed'' \<and> doc_status st \<noteq> ''failed'')"

definition poll_times :: "nat \<Rightarrow> nat list" where
  "poll_times n = map (\<lambda>k. 2000 * (k + 1)) [0..<n]"

text \<open>Replies for concrete runs.\<close>

definition created :: "js_error + UploadResponse Response" where
  "created = Inr \<lparr>http_status = 201,
     body = \<lparr>upload_id = ''doc-1'', upload_status = ''new'', created_at = '''',
             updated_at = ''''\<rparr>\<rparr>"

definition ok_200 :: "js_error + UploadResponse Response" where
  "ok_200 = Inr \<lparr>http_status = 200,
     body = \<lparr>upload_id = ''doc-1'', upload_status = ''new'', created_at = '''',
             updated_at = ''''\<rparr>\<rparr>"

definition reports :: "string \<Rightarrow> string option \<Rightarrow> js_error + DocumentStatus Response" where
  "reports s e = Inr \<lparr>http_status = 200,
     body = \<lparr>doc_id = ''doc-1'', doc_status = s, pages = None, doc_error = e\<rparr>\<rparr>"

definition transcript :: DocumentResult where
  "transcript = \<lparr>result_id = ''doc-1'', file_name = ''scan.PNG'', result_action = ''transcribe'',
     page_count = 1, result_status = ''processed'', results = [(1, ''hello'')],
     thumbnails = None, result_error = None\<rparr>"

definition stuck_job :: Remote where
  "stuck_job = \<lparr>upload_reply = created, status_reply = (\<lambda>k. reports ''processing'' None),
     result_reply = Inr \<lparr>http_status = 200, body = transcript\<rparr>\<rparr>"

definition finishing_job :: Remote where
  "finishing_job = \<lparr>upload_reply = created,
     status_reply = (\<lambda>k. if k < 1 then reports ''new'' None
                         else if k < 2 then reports ''processing'' None
                         else reports ''processed'' None),
     result_reply = Inr \<lparr>http_status = 200, body = transcript\<rparr>\<rparr>"

definition failing_job :: Remote where
  "failing_job = \<lparr>upload_reply = created,
     status_reply = (\<lambda>k. if k < 1 then reports ''new'' None
                         else reports ''failed'' (Some ''Unreadable scan'')),
     result_reply = Inr \<lparr>http_status = 200, body = transcript\<rparr>\<rparr>"

section \<open>Properties of the queue\<close>

definition queue_inv :: "ProcessingQueue \<Rightarrow> bool" where
  "queue_inv q = (distinct (map path (queue q)) \<and> (\<not> processing q \<longrightarrow> queue q = []))"

definition serial :: "ProcessingQueue \<Rightarrow> bool" where
  "serial q = (length (inflight q) \<le> 1 \<and> (processing q \<longleftrightarrow> inflight q \<noteq> []))"

fun no_clear :: "event list \<Rightarrow> bool" where
  "no_clear [] = True"
| "no_clear (e # es) = (e \<noteq> Clear \<and> no_clear es)"

subsection \<open>Invariants of the queue\<close>

lemma find_pending: "(find (\<lambda>f. path f = path file) (queue q) = None) = (\<not> pending file q)"
  by (auto simp: pending_def find_None_iff)

lemma run_append: "run (es @ fs) q = run fs (run es q)"
  by (induction es arbitrary: q) simp_all

lemma run_snoc: "run (es @ [e]) q = step e (run es q)"
  by (simp add: run_append)

lemma queue_inv_init: "queue_inv init"
  by (simp add: queue_inv_def init_def)

lemma queue_inv_processNext: "distinct (map path (queue q)) \<Longrightarrow> queue_inv (processNext q)"
  by (auto simp: queue_inv_def processNext_def split: list.splits)

lemma queue_inv_add: "queue_inv q \<Longrightarrow> queue_inv (add file q)"
  unfolding add_def find_pending Let_def
  by (auto simp: queue_inv_def pending_def processNext_def split: list.splits)

lemma queue_inv_clear: "queue_inv (clear q)"
  by (simp add: queue_inv_def clear_def)

lemma queue_inv_resume: "queue_inv q \<Longrightarrow> queue_inv (resume i r q)"
  unfolding resume_def Let_def
  by (auto simp: queue_inv_def intro!: queue_inv_processNext [unfolded queue_inv_def, THEN conjunct1]
           queue_inv_processNext [unfolded queue_inv_def, THEN conjunct2, rule_format]
           split: settled.splits)

lemma queue_inv_step: "queue_inv q \<Longrightarrow> queue_inv (step e q)"
  by (cases e) (simp_all add: queue_inv_add queue_inv_clear queue_inv_resume)

lemma queue_inv_run: "queue_inv q \<Longrightarrow> queue_inv (run es q)"
  by (induction es arbitrary: q) (simp_all add: queue_inv_step)

lemma queue_inv_reachable: "queue_inv (run es init)"
  by (rule queue_inv_run [OF queue_inv_init])

lemma processNext_order: "invoked (processNext q) @ queue (processNext q) = invoked q @ queue q"
  by (simp add: processNext_def split: list.splits)

lemma resume_order: "invoked (resume i r q) @ queue (resume i r q) = invoked q @ queue q"
  unfolding resume_def Let_def
  by (simp add: processNext_order split: settled.splits)

lemma run_settles_order:
  "invoked (run (settles cs) q) @ queue (run (settles cs) q) = invoked q @ queue q"
  by (induction cs arbitrary: q) (auto simp: settles_def resume_order)

lemma invoked_processNext_prefix: "\<exists>zs. invoked (processNext q) = invoked q @ zs"
  by (simp add: processNext_def split: list.splits)


lemma add_busy:
  "\<not> pending file q \<Longrightarrow> processing q \<Longrightarrow> add file q = q\<lparr>queue := queue q @ [file]\<rparr>"
  by (simp add: add_def find_pending Let_def)


lemma add_order:
  "\<not> pending file q \<Longrightarrow> invoked (add file q) @ queue (add file q) = invoked q @ queue q @ [file]"
  by (simp add: add_def find_pending processNext_order Let_def)


lemma resume_rejected:
  "i < length (inflight q) \<Longrightarrow>
   resume i (Rejected e) q
     = (resume i Resolved q)\<lparr>logged := logged q @ [(path (inflight q ! i), e)]\<rparr>"
  by (simp add: resume_def Let_def processNext_def split: list.splits)

lemma serial_add: "serial q \<Longrightarrow> queue_inv q \<Longrightarrow> serial (add file q)"
  unfolding add_def find_pending Let_def
  by (auto simp: serial_def queue_inv_def processNext_def split: list.splits)

lemma serial_resume: "serial q \<Longrightarrow> serial (resume i r q)"
  unfolding resume_def Let_def
  by (cases "inflight q") (auto simp: serial_def processNext_def split: list.splits settled.splits)

lemma serial_run: "serial q \<Longrightarrow> queue_inv q \<Longrightarrow> no_clear es \<Longrightarrow> serial (run es q)"
proof (induction es arbitrary: q)
  case Nil
  then show ?case by simp
next
  case (Cons e es)
  then show ?case
    by (cases e) (simp_all add: serial_add serial_resume queue_inv_add queue_inv_resume)
qed

lemma started_step:
  assumes "queue_inv q" and "invoked (step e q) = invoked q @ [file]"
  shows "file \<in> set (inflight (step e q)) \<and> \<not> pending file (step e q) \<and> processing (step e q)"
proof (cases e)
  case (Add g)
  with assms show ?thesis
    unfolding queue_inv_def
    by (auto simp: add_def find_pending Let_def processNext_def pending_def image_iff split: if_splits list.splits)
next
  case Clear
  with assms show ?thesis by (simp add: clear_def)
next
  case (Settle i r)
  with assms show ?thesis
    unfolding queue_inv_def
    by (auto simp: resume_def Let_def processNext_def pending_def image_iff split: if_splits list.splits settled.splits)
qed

lemma path_mkFile: "path (mkFile p) = p"
  by (simp add: mkFile_def)


lemma run_add_two:
  "a \<noteq> b \<Longrightarrow> run [Add (mkFile a), Add (mkFile b)] init =
     \<lparr>queue = [mkFile b], processing = True, inflight = [mkFile a], invoked = [mkFile a],
      logged = []\<rparr>"
  by (simp add: add_def init_def processNext_def path_mkFile)

text \<open>
  Claim C1, evaluated where it fails. \<open>clear\<close> resets \<open>processing\<close> while the callback
  of \<open>a.png\<close> is still awaited; the next \<open>add\<close> then finds the executor idle and invokes
  the callback of \<open>b.png\<close> at once, so two callbacks are in flight together.
\<close>

theorem clear_then_add_overlaps:
  "inflight (run [Add (mkFile ''Inbox/a.png''), Clear, Add (mkFile ''Inbox/b.png'')] init)
     = [mkFile ''Inbox/a.png'', mkFile ''Inbox/b.png''] \<and>
   \<not> serial (run [Add (mkFile ''Inbox/a.png''), Clear, Add (mkFile ''Inbox/b.png'')] init)"
  by (simp add: add_def processNext_def clear_def init_def serial_def)



lemma no_clear_snoc: "no_clear (es @ [e]) = (no_clear es \<and> e \<noteq> Clear)"
  by (induction es) auto

lemma serial_init: "serial init"
  by (simp add: serial_def init_def)

text \<open>
  What holds of a file in flight in every state the queue reaches: when a step invokes the
  callback of \<open>f\<close>, the file is in flight and no pending entry has its path; enqueuing the
  same path then appends it without invoking anything, and a drained queue has invoked it a
  second time, after the entries that were pending before it.
\<close>

lemma reenqueue_in_flight:
  assumes "invoked (step e (run es init)) = invoked (run es init) @ [f]"
    and "path g = path f"
  shows "f \<in> set (inflight (step e (run es init)))"
    and "\<not> pending f (step e (run es init))"
    and "add g (step e (run es init))
           = (step e (run es init))\<lparr>queue := queue (step e (run es init)) @ [g]\<rparr>"
    and "queue (run (settles cs) (add g (step e (run es init)))) = [] \<Longrightarrow>
         invoked (run (settles cs) (add g (step e (run es init))))
           = invoked (run es init) @ [f] @ queue (step e (run es init)) @ [g]"
proof -
  let ?q' = "step e (run es init)"
  from started_step [OF queue_inv_reachable assms(1)]
  have s: "f \<in> set (inflight ?q')" "\<not> pending f ?q'" "processing ?q'"
    by simp_all
  from s(2) assms(2) have np: "\<not> pending g ?q'"
    by (simp add: pending_def)
  have q1: "add g ?q' = ?q'\<lparr>queue := queue ?q' @ [g]\<rparr>"
    by (rule add_busy [OF np s(3)])
  show "f \<in> set (inflight ?q')" and "\<not> pending f ?q'"
    by (rule s)+
  show "add g ?q' = ?q'\<lparr>queue := queue ?q' @ [g]\<rparr>"
    by (rule q1)
  assume d: "queue (run (settles cs) (add g ?q')) = []"
  have "invoked (run (settles cs) (add g ?q')) @ queue (run (settles cs) (add g ?q'))
      = invoked (add g ?q') @ queue (add g ?q')"
    by (rule run_settles_order)
  with d have "invoked (run (settles cs) (add g ?q')) = invoked (add g ?q') @ queue (add g ?q')"
    by simp
  also have "\<dots> = invoked (run es init) @ [f] @ queue ?q' @ [g]"
    unfolding q1 using assms(1) by simp
  finally show "invoked (run (settles cs) (add g ?q'))
      = invoked (run es init) @ [f] @ queue ?q' @ [g]" .
qed

text \<open>
  As long as \<open>clear\<close> is not called, the second invocation waits for the first: when a step
  invokes the callback of \<open>f\<close>, it is the only callback in flight; enqueuing the same path
  leaves it so; whatever is added or settles afterwards, at most one callback is in flight;
  and the next invocation can only come from the settling of \<open>f\<close>.
\<close>

lemma reenqueue_serial:
  assumes "no_clear es" and "e \<noteq> Clear"
    and "invoked (step e (run es init)) = invoked (run es init) @ [f]"
    and "path g = path f"
  shows "inflight (add g (step e (run es init))) = [f]"
    and "no_clear es' \<Longrightarrow> length (inflight (run es' (add g (step e (run es init))))) \<le> 1"
    and "e' \<noteq> Clear \<Longrightarrow>
         invoked (step e' (add g (step e (run es init))))
           \<noteq> invoked (add g (step e (run es init))) \<Longrightarrow> \<exists>r. e' = Settle 0 r"
proof -
  let ?q' = "step e (run es init)"
  let ?q1 = "add g ?q'"
  have nc: "no_clear (es @ [e])"
    using assms(1,2) by (simp add: no_clear_snoc)
  have "serial (run (es @ [e]) init)"
    by (rule serial_run [OF serial_init queue_inv_init nc])
  then have ser: "serial ?q'"
    by (simp add: run_snoc)
  have inv: "queue_inv ?q'"
    by (rule queue_inv_step [OF queue_inv_reachable])
  from started_step [OF queue_inv_reachable assms(3)]
  have s: "f \<in> set (inflight ?q')" "processing ?q'"
    by simp_all
  from ser s(1) have one: "inflight ?q' = [f]"
    by (cases "inflight ?q'") (auto simp: serial_def)
  have q1: "?q1 = ?q'\<lparr>queue := queue ?q' @ [g]\<rparr>"
    by (rule reenqueue_in_flight(3) [OF assms(3,4)])
  show fl: "inflight ?q1 = [f]"
    unfolding q1 using one by simp
  have ser1: "serial ?q1"
    by (rule serial_add [OF ser inv])
  have inv1: "queue_inv ?q1"
    by (rule queue_inv_add [OF inv])
  show "length (inflight (run es' ?q1)) \<le> 1" if "no_clear es'"
    using serial_run [OF ser1 inv1 that] by (simp add: serial_def)
  have busy: "processing ?q1"
    unfolding q1 using s(2) by simp
  show "\<exists>r. e' = Settle 0 r"
    if c: "e' \<noteq> Clear" and n: "invoked (step e' ?q1) \<noteq> invoked ?q1"
  proof (cases e')
    case (Add h)
    with n busy show ?thesis
      by (auto simp: add_def Let_def split: if_splits)
  next
    case Clear
    with c show ?thesis by simp
  next
    case (Settle i r)
    with n fl have "i = 0"
      by (cases i) (auto simp: resume_def)
    with Settle show ?thesis by simp
  qed
qed

text \<open>
  Claim C10, evaluated where it fails. After \<open>clear\<close> has reset the flag under the callback
  of \<open>a.png\<close>, \<open>f.png\<close> is started and enqueued again while it is processed; when
  \<open>a.png\<close> settles, its drain loop shifts the second entry and invokes the callback of
  \<open>f.png\<close> a second time while the first invocation is still awaited.
\<close>

theorem reenqueued_file_overlaps_after_clear:
  "run [Add (mkFile ''Inbox/a.png''), Clear, Add (mkFile ''Inbox/f.png''),
        Add (mkFile ''Inbox/f.png'')] init
     = \<lparr>queue = [mkFile ''Inbox/f.png''], processing = True,
        inflight = [mkFile ''Inbox/a.png'', mkFile ''Inbox/f.png''],
        invoked = [mkFile ''Inbox/a.png'', mkFile ''Inbox/f.png''], logged = []\<rparr> \<and>
   run [Add (mkFile ''Inbox/a.png''), Clear, Add (mkFile ''Inbox/f.png''),
        Add (mkFile ''Inbox/f.png''), Settle 0 Resolved] init
     = \<lparr>queue = [], processing = True,
        inflight = [mkFile ''Inbox/f.png'', mkFile ''Inbox/f.png''],
        invoked = [mkFile ''Inbox/a.png'', mkFile ''Inbox/f.png'', mkFile ''Inbox/f.png''],
        logged = []\<rparr>"
proof -
  let ?a = "mkFile ''Inbox/a.png''" and ?f = "mkFile ''Inbox/f.png''"
  have 1: "run [Add ?a, Clear] init
      = \<lparr>queue = [], processing = False, inflight = [?a], invoked = [?a], logged = []\<rparr>"
    by (simp add: add_def clear_def init_def processNext_def)
  have 2: "run [Add ?f, Add ?f]
        \<lparr>queue = [], processing = False, inflight = [?a], invoked = [?a], logged = []\<rparr>
      = \<lparr>queue = [?f], processing = True, inflight = [?a, ?f], invoked = [?a, ?f],
         logged = []\<rparr>"
    by (simp add: add_def processNext_def)
  have 3: "run [Add ?a, Clear, Add ?f, Add ?f] init
      = \<lparr>queue = [?f], processing = True, inflight = [?a, ?f], invoked = [?a, ?f],
         logged = []\<rparr>"
    using run_append [of "[Add ?a, Clear]" "[Add ?f, Add ?f]" init] unfolding 1 2 by simp
  have 4: "step (Settle 0 Resolved)
        \<lparr>queue = [?f], processing = True, inflight = [?a, ?f], invoked = [?a, ?f],
         logged = []\<rparr>
      = \<lparr>queue = [], processing = True, inflight = [?f, ?f], invoked = [?a, ?f, ?f],
         logged = []\<rparr>"
    by (simp add: resume_def processNext_def)
  have 5: "run [Add ?a, Clear, Add ?f, Add ?f, Settle 0 Resolved] init
      = step (Settle 0 Resolved) (run [Add ?a, Clear, Add ?f, Add ?f] init)"
    using run_snoc [of "[Add ?a, Clear, Add ?f, Add ?f]" "Settle 0 Resolved" init] by simp
  from 3 4 5 show ?thesis by simp
qed

section \<open>Properties of the change detector and the metadata store\<close>

lemma isProcessed_iff:
  "isProcessed v file \<longleftrightarrow>
     (\<exists>kvs. v (getMetadataFilePath file) = Some (FileEntry (Json (JObj kvs))) \<and>
            map_of kvs ''status'' = Some (JStr ''success'') \<and>
            map_of kvs ''fileHash'' = Some (JStr (getFileHash file)))"
proof (cases "v (getMetadataFilePath file)")
  case None
  then show ?thesis by (simp add: isProcessed_def)
next
  case (Some entry)
  show ?thesis
  proof (cases entry)
    case FolderEntry
    with Some show ?thesis by (simp add: isProcessed_def)
  next
    case (FileEntry content)
    show ?thesis
    proof (cases content)
      case (Json j)
      with Some FileEntry show ?thesis
        by (cases j) (auto simp: isProcessed_def isProcessed_try_def)
    qed (use Some FileEntry in \<open>simp_all add: isProcessed_def isProcessed_try_def\<close>)
  qed
qed

lemma validateFileSize_iff: "validateFileSize file \<longleftrightarrow> size_bytes (stat file) \<le> 20971520"
  by (simp add: validateFileSize_def)

lemma isSupportedFile_iff:
  "isSupportedFile file \<longleftrightarrow> toLowerCase (extension file) \<in>
       {''jpg'', ''jpeg'', ''png'', ''gif'', ''bmp'', ''tiff'', ''tif'', ''heic'', ''webp'', ''pdf''}"
  unfolding isSupportedFile_def supportedExtensions_def list.set ..

lemma isInWatchFolder_iff:
  "isInWatchFolder settings file \<longleftrightarrow>
     (startsWith (path file) (strip_slashes (watchFolder settings) @ ''/'') \<or>
      startsWith (path file) (strip_slashes (watchFolder settings)) \<and>
      parent file = Some (strip_slashes (watchFolder settings)))"
  unfolding isInWatchFolder_def Let_def ..

lemma shouldProcess_eq:
  "shouldProcess settings v file \<longleftrightarrow>
     enableAutoProcessing settings \<and> watchFolder settings \<noteq> '''' \<and>
     isInWatchFolder settings file \<and> isSupportedFile file \<and> validateFileSize file \<and>
     \<not> isProcessed v file"
  unfolding shouldProcess_def
  by (cases "enableAutoProcessing settings"; cases "watchFolder settings = ''''";
      cases "isInWatchFolder settings file"; cases "isSupportedFile file";
      cases "validateFileSize file") simp_all

lemma member_status_error:
  "member j ''status'' = Inr (Some (JStr ''error'')) \<Longrightarrow>
   \<exists>kvs. j = JObj kvs \<and> map_of kvs ''status'' = Some (JStr ''error'')"
  by (cases j) simp_all

lemma isProcessed_caught:
  "isProcessed_try content file = Inl e \<Longrightarrow>
   \<not> isProcessed (v(getMetadataFilePath file \<mapsto> FileEntry content)) file"
  by (simp add: isProcessed_def)

lemma ext_sidecar: "extension_of (metadataFileName n) = ''ocr-processed''"
  by (simp add: extension_of_def metadataFileName_def)

lemma lower_sidecar_ext: "toLowerCase ''ocr-processed'' = ''ocr-processed''"
  by (simp add: toLowerCase_def lower_char_def)

lemma sidecar_ext_unsupported: "toLowerCase ''ocr-processed'' \<notin> set supportedExtensions"
  unfolding lower_sidecar_ext by (simp add: supportedExtensions_def)

lemma endsWith_append:
  "length e \<le> length ys \<Longrightarrow> endsWith (xs @ ys) e = endsWith ys e"
  by (simp add: endsWith_def)

lemma lower_sidecar_name:
  "toLowerCase (metadataFileName n) = (''.'' @ toLowerCase n) @ ''.ocr-processed''"
  by (simp add: toLowerCase_def metadataFileName_def lower_char_def)

lemma endsWith_sidecar:
  "e \<in> set SUPPORTED_EXTENSIONS \<Longrightarrow> \<not> endsWith (xs @ ''.ocr-processed'') e"
proof -
  assume e: "e \<in> set SUPPORTED_EXTENSIONS"
  then have "length e \<le> length ''.ocr-processed''"
    by (auto simp: SUPPORTED_EXTENSIONS_def)
  then have "endsWith (xs @ ''.ocr-processed'') e = endsWith ''.ocr-processed'' e"
    by (rule endsWith_append)
  moreover have "\<not> endsWith ''.ocr-processed'' e"
    using e by (auto simp: SUPPORTED_EXTENSIONS_def endsWith_def)
  ultimately show ?thesis by simp
qed

lemma utils_sidecar: "\<not> isSupportedFile_utils (metadataFileName n)"
  unfolding isSupportedFile_utils_def Let_def lower_sidecar_name list_ex_iff
  using endsWith_sidecar by blast

lemma scan_png_in_folder: "isInWatchFolder inbox_settings scan_png"
  by (simp add: isInWatchFolder_def inbox_settings_def scan_png_def strip_slashes_def
        startsWith_def)

lemma scan_png_supported: "isSupportedFile scan_png"
  by code_simp

lemma scan_png_size: "validateFileSize scan_png"
  by (simp add: validateFileSize_def scan_png_def)

lemma scan_png_hash: "getFileHash scan_png = ''1712-2048''"
  by code_simp

lemma scan_png_sidecar: "getMetadataFilePath scan_png = ''Inbox/.scan.PNG.ocr-processed''"
  by (simp add: getMetadataFilePath_def metadataFileName_def scan_png_def)

lemma inbox_enabled: "enableAutoProcessing inbox_settings \<and> watchFolder inbox_settings \<noteq> ''''"
  by (simp add: inbox_settings_def)

lemma scan_png_eligible:
  "enableAutoProcessing inbox_settings \<and> watchFolder inbox_settings \<noteq> '''' \<and>
   isInWatchFolder inbox_settings scan_png \<and> isSupportedFile scan_png \<and>
   validateFileSize scan_png"
  using inbox_enabled scan_png_in_folder scan_png_supported scan_png_size by simp

text \<open>
  Claim C2. \<open>shouldProcess\<close> holds exactly when auto-processing is enabled and a watch
  folder is set, the path of the file starts with the watch folder (its slashes stripped)
  and a slash, or starts with it while the parent is the watch folder, the lower-cased
  extension is one of the ten supported ones, the size is at most 20 MB (20971520 bytes) and
  the sidecar does not hold a record with status \<open>success\<close> and the fingerprint of the
  file.
\<close>

theorem shouldProcess_iff:
  "shouldProcess settings v file \<longleftrightarrow>
     (enableAutoProcessing settings \<and> watchFolder settings \<noteq> '''') \<and>
     (startsWith (path file) (strip_slashes (watchFolder settings) @ ''/'') \<or>
      startsWith (path file) (strip_slashes (watchFolder settings)) \<and>
      parent file = Some (strip_slashes (watchFolder settings))) \<and>
     toLowerCase (extension file) \<in>
       {''jpg'', ''jpeg'', ''png'', ''gif'', ''bmp'', ''tiff'', ''tif'', ''heic'', ''webp'', ''pdf''} \<and>
     size_bytes (stat file) \<le> 20971520 \<and>
     \<not> (\<exists>kvs. v (getMetadataFilePath file) = Some (FileEntry (Json (JObj kvs))) \<and>
              map_of kvs ''status'' = Some (JStr ''success'') \<and>
              map_of kvs ''fileHash'' = Some (JStr (getFileHash file)))"
  unfolding shouldProcess_def
    isProcessed_iff [symmetric] validateFileSize_iff [symmetric]
    isSupportedFile_iff [symmetric] isInWatchFolder_iff [symmetric]
  by (cases "enableAutoProcessing settings"; cases "watchFolder settings = ''''";
      cases "isInWatchFolder settings file"; cases "isSupportedFile file";
      cases "validateFileSize file") simp_all

theorem shouldProcess_iff_witness:
  "shouldProcess inbox_settings Map.empty scan_png \<and>
   \<not> shouldProcess inbox_settings
       [''Inbox/.scan.PNG.ocr-processed'' \<mapsto>
          FileEntry (Json (JObj [(''fileHash'', JStr ''1712-2048''), (''status'', JStr ''success'')]))]
       scan_png"
proof -
  let ?v = "[''Inbox/.scan.PNG.ocr-processed'' \<mapsto>
          FileEntry (Json (JObj [(''fileHash'', JStr ''1712-2048''), (''status'', JStr ''success'')]))]"
  note e = scan_png_eligible [unfolded isInWatchFolder_iff isSupportedFile_iff validateFileSize_iff]
  have a: "shouldProcess inbox_settings Map.empty scan_png"
    using shouldProcess_iff [of inbox_settings Map.empty scan_png] e by simp
  have "\<exists>kvs. ?v (getMetadataFilePath scan_png) = Some (FileEntry (Json (JObj kvs))) \<and>
              map_of kvs ''status'' = Some (JStr ''success'') \<and>
              map_of kvs ''fileHash'' = Some (JStr (getFileHash scan_png))"
    unfolding scan_png_sidecar scan_png_hash by simp
  then have b: "\<not> shouldProcess inbox_settings ?v scan_png"
    using shouldProcess_iff [of inbox_settings ?v scan_png] by blast
  from a b show ?thesis by blast
qed

text \<open>
  Claim C5. A stored record whose status is \<open>error\<close> never counts as processed, whatever
  its \<open>fileHash\<close> is: \<open>shouldProcess\<close> then depends on the settings, the folder, the
  extension and the size only.
\<close>

theorem error_record_never_blocks:
  "v (getMetadataFilePath file) = Some (FileEntry (Json j)) \<and>
   member j ''status'' = Inr (Some (JStr ''error'')) \<longrightarrow>
     \<not> isProcessed v file \<and>
     (shouldProcess settings v file \<longleftrightarrow>
        enableAutoProcessing settings \<and> watchFolder settings \<noteq> '''' \<and>
        isInWatchFolder settings file \<and> isSupportedFile file \<and> validateFileSize file)"
proof (intro impI, elim conjE)
  assume a: "v (getMetadataFilePath file) = Some (FileEntry (Json j))"
    and b: "member j ''status'' = Inr (Some (JStr ''error''))"
  from member_status_error [OF b] obtain kvs
    where j: "j = JObj kvs" and s: "map_of kvs ''status'' = Some (JStr ''error'')"
    by blast
  have np: "\<not> isProcessed v file"
    unfolding isProcessed_iff using a j s by auto
  then show "\<not> isProcessed v file \<and>
     (shouldProcess settings v file \<longleftrightarrow>
        enableAutoProcessing settings \<and> watchFolder settings \<noteq> '''' \<and>
        isInWatchFolder settings file \<and> isSupportedFile file \<and> validateFileSize file)"
    by (simp add: shouldProcess_eq)
qed

theorem error_record_never_blocks_witness:
  "shouldProcess inbox_settings
     [''Inbox/.scan.PNG.ocr-processed'' \<mapsto>
        FileEntry (Json (JObj [(''fileHash'', JStr ''1712-2048''), (''status'', JStr ''error''),
                               (''errorMessage'', JStr ''Insufficient credits'')]))]
     scan_png"
proof -
  let ?j = "JObj [(''fileHash'', JStr ''1712-2048''), (''status'', JStr ''error''),
                  (''errorMessage'', JStr ''Insufficient credits'')]"
  let ?v = "[''Inbox/.scan.PNG.ocr-processed'' \<mapsto> FileEntry (Json ?j)]"
  have a: "?v (getMetadataFilePath scan_png) = Some (FileEntry (Json ?j))"
    unfolding scan_png_sidecar by simp
  have b: "member ?j ''status'' = Inr (Some (JStr ''error''))"
    by simp
  from error_record_never_blocks [of ?v scan_png ?j inbox_settings] a b scan_png_eligible
  show ?thesis by blast
qed

text \<open>
  Claim C8. A missing sidecar and a sidecar whose text does not parse both give "not
  processed": the SyntaxError of the parse is caught, as is every other error thrown while
  the record is read, and \<open>shouldProcess\<close> answers the same for an unparsable sidecar as
  for no sidecar.
\<close>

theorem unparsable_record_is_absent:
  "(v (getMetadataFilePath file) = None \<longrightarrow> \<not> isProcessed v file) \<and>
   (v (getMetadataFilePath file) = Some (FileEntry Unparsable) \<longrightarrow>
      isProcessed_try Unparsable file = Inl SyntaxError \<and> \<not> isProcessed v file) \<and>
   (v (getMetadataFilePath file) = Some (FileEntry content) \<and>
    isProcessed_try content file = Inl e \<longrightarrow> \<not> isProcessed v file) \<and>
   shouldProcess settings (v(getMetadataFilePath file \<mapsto> FileEntry Unparsable)) file
     = shouldProcess settings (v(getMetadataFilePath file := None)) file"
  by (simp add: isProcessed_def isProcessed_try_def shouldProcess_eq)

theorem unparsable_record_is_absent_witness:
  "\<not> isProcessed [''Inbox/.scan.PNG.ocr-processed'' \<mapsto> FileEntry Unparsable] scan_png \<and>
   \<not> isProcessed [''Inbox/.scan.PNG.ocr-processed'' \<mapsto> FileEntry (Json JNull)] scan_png \<and>
   \<not> isProcessed Map.empty scan_png"
proof -
  let ?p = "''Inbox/.scan.PNG.ocr-processed''"
  have a: "[?p \<mapsto> FileEntry Unparsable] (getMetadataFilePath scan_png)
             = Some (FileEntry Unparsable)"
    unfolding scan_png_sidecar by simp
  have b: "[?p \<mapsto> FileEntry (Json JNull)] (getMetadataFilePath scan_png)
             = Some (FileEntry (Json JNull))"
    unfolding scan_png_sidecar by simp
  have c: "isProcessed_try (Json JNull) scan_png = Inl TypeError"
    by (simp add: isProcessed_try_def)
  have d: "Map.empty (getMetadataFilePath scan_png) = (None :: abstract_file option)"
    by simp
  from unparsable_record_is_absent [of "[?p \<mapsto> FileEntry Unparsable]" scan_png] a
  have 1: "\<not> isProcessed [?p \<mapsto> FileEntry Unparsable] scan_png" by blast
  from unparsable_record_is_absent
         [of "[?p \<mapsto> FileEntry (Json JNull)]" scan_png "Json JNull" TypeError] b c
  have 2: "\<not> isProcessed [?p \<mapsto> FileEntry (Json JNull)] scan_png" by blast
  from unparsable_record_is_absent [of Map.empty scan_png] d
  have 3: "\<not> isProcessed Map.empty scan_png" by blast
  from 1 2 3 show ?thesis by blast
qed

lemma sidecar_path:
  "getMetadataFilePath file =
     (case parent file of
        None \<Rightarrow> metadataFileName (name file)
      | Some d \<Rightarrow> if d = '''' then metadataFileName (name file)
                  else d @ ''/'' @ metadataFileName (name file))"
  by (simp add: getMetadataFilePath_def Let_def split: option.splits)

lemma of_char_digit: "d < 10 \<Longrightarrow> of_char (digit d) = (48 + d :: nat)"
  by (simp add: digit_def)

lemma dec_value: "foldl (\<lambda>a c. 10 * a + (of_char c - 48)) 0 (dec n) = n"
proof (induction n rule: dec.induct)
  case (1 n)
  show ?case
  proof (cases "n < 10")
    case True
    then have "dec n = [digit n]" by (subst dec.simps) simp
    with True show ?thesis by (simp add: of_char_digit)
  next
    case False
    then have d: "dec n = dec (n div 10) @ [digit (n mod 10)]" by (subst dec.simps) simp
    have "n mod 10 < 10" by simp
    then have "of_char (digit (n mod 10)) = (48 + n mod 10 :: nat)" by (rule of_char_digit)
    with 1 [OF False] show ?thesis unfolding d by simp
  qed
qed

lemma dec_inj: "dec m = dec n \<Longrightarrow> m = n"
  by (metis dec_value)

lemma digit_not_dash: "d < 10 \<Longrightarrow> digit d \<noteq> CHR ''-''"
proof
  assume "d < 10" and "digit d = CHR ''-''"
  then have "(of_char (digit d) :: nat) = of_char (CHR ''-'')" by simp
  with \<open>d < 10\<close> show False by (simp add: of_char_digit)
qed

lemma dec_no_dash: "CHR ''-'' \<notin> set (dec n)"
proof (induction n rule: dec.induct)
  case (1 n)
  show ?case
  proof (cases "n < 10")
    case True
    then have "dec n = [digit n]" by (subst dec.simps) simp
    with True digit_not_dash [of n] show ?thesis by auto
  next
    case False
    then have d: "dec n = dec (n div 10) @ [digit (n mod 10)]" by (subst dec.simps) simp
    have "digit (n mod 10) \<noteq> CHR ''-''" by (rule digit_not_dash) simp
    with 1 [OF False] show ?thesis unfolding d by auto
  qed
qed

lemma hash_split:
  "takeWhile (\<lambda>x. x \<noteq> CHR ''-'') (dec a @ ''-'' @ dec b) = dec a \<and>
   dropWhile (\<lambda>x. x \<noteq> CHR ''-'') (dec a @ ''-'' @ dec b) = ''-'' @ dec b"
proof -
  have "\<And>x. x \<in> set (dec a) \<Longrightarrow> x \<noteq> CHR ''-''"
    using dec_no_dash [of a] by auto
  then show ?thesis
    by simp
qed

lemma hash_inj:
  assumes "dec a @ ''-'' @ dec b = dec c @ ''-'' @ dec d"
  shows "a = c \<and> b = d"
proof -
  let ?P = "\<lambda>x. x \<noteq> CHR ''-''"
  have "takeWhile ?P (dec a @ ''-'' @ dec b) = takeWhile ?P (dec c @ ''-'' @ dec d)"
    using assms by (rule arg_cong)
  then have 1: "dec a = dec c"
    by (simp only: hash_split)
  have "dropWhile ?P (dec a @ ''-'' @ dec b) = dropWhile ?P (dec c @ ''-'' @ dec d)"
    using assms by (rule arg_cong)
  then have "''-'' @ dec b = ''-'' @ dec d"
    by (simp only: hash_split)
  then have 2: "dec b = dec d"
    by (simp only: same_append_eq)
  from 1 2 show ?thesis
    by (simp only: dec_inj [of a c] dec_inj [of b d])
qed

lemma getFileHash_eq_iff:
  "getFileHash f = getFileHash g \<longleftrightarrow>
     mtime (stat f) = mtime (stat g) \<and> size_bytes (stat f) = size_bytes (stat g)"
proof
  assume "getFileHash f = getFileHash g"
  then show "mtime (stat f) = mtime (stat g) \<and> size_bytes (stat f) = size_bytes (stat g)"
    unfolding getFileHash_def by (rule hash_inj)
next
  assume "mtime (stat f) = mtime (stat g) \<and> size_bytes (stat f) = size_bytes (stat g)"
  then show "getFileHash f = getFileHash g"
    unfolding getFileHash_def by (elim conjE) (simp only:)
qed

lemma markAsProcessed_written:
  "markAsProcessed io now v f st msg = (v', []) \<Longrightarrow>
   v' = v(getMetadataFilePath f \<mapsto>
          FileEntry (stringify \<lparr>processedAt = now, fileHash = getFileHash f, status = st,
                                errorMessage = msg\<rparr>))"
  unfolding markAsProcessed_def Let_def vault_modify_def vault_create_def
  by (auto split: option.splits abstract_file.splits if_splits sum.splits)

lemma isProcessed_after_success:
  "getMetadataFilePath g = getMetadataFilePath f \<Longrightarrow>
   isProcessed (v(getMetadataFilePath f \<mapsto>
          FileEntry (stringify \<lparr>processedAt = now, fileHash = getFileHash f,
                                status = StatusSuccess, errorMessage = msg\<rparr>))) g
     \<longleftrightarrow> getFileHash g = getFileHash f"
  unfolding isProcessed_iff by (auto simp: stringify_def)

lemma stat_update_same:
  "getMetadataFilePath (f\<lparr>stat := s\<rparr>) = getMetadataFilePath f"
  "isInWatchFolder settings (f\<lparr>stat := s\<rparr>) = isInWatchFolder settings f"
  "isSupportedFile (f\<lparr>stat := s\<rparr>) = isSupportedFile f"
  by (simp_all add: getMetadataFilePath_def isInWatchFolder_def isSupportedFile_def)

text \<open>
  Claim C9. The sidecar of a file is \<open>.<name>.ocr-processed\<close>, in the folder of the file.
  The extension of such a name is \<open>ocr-processed\<close>, which is not a supported extension
  (nor does the name end in one of the dotted extensions of utils.ts), so a file with that
  name and extension is never accepted by \<open>shouldProcess\<close>.
\<close>

theorem sidecar_never_processed:
  "getMetadataFilePath file =
     (case parent file of
        None \<Rightarrow> ''.'' @ name file @ ''.ocr-processed''
      | Some d \<Rightarrow> if d = '''' then ''.'' @ name file @ ''.ocr-processed''
                  else d @ ''/'' @ ''.'' @ name file @ ''.ocr-processed'') \<and>
   extension_of (''.'' @ n @ ''.ocr-processed'') = ''ocr-processed'' \<and>
   toLowerCase (extension_of (''.'' @ n @ ''.ocr-processed'')) \<notin> set supportedExtensions \<and>
   \<not> isSupportedFile_utils (''.'' @ n @ ''.ocr-processed'') \<and>
   (name sidecar = ''.'' @ n @ ''.ocr-processed'' \<and>
    extension sidecar = extension_of (name sidecar) \<longrightarrow>
      \<not> isSupportedFile sidecar \<and> \<not> shouldProcess settings v sidecar)"
proof -
  have m: "''.'' @ n @ ''.ocr-processed'' = metadataFileName n"
    by (simp add: metadataFileName_def)
  have a: "getMetadataFilePath file =
     (case parent file of
        None \<Rightarrow> ''.'' @ name file @ ''.ocr-processed''
      | Some d \<Rightarrow> if d = '''' then ''.'' @ name file @ ''.ocr-processed''
                  else d @ ''/'' @ ''.'' @ name file @ ''.ocr-processed'')"
    unfolding sidecar_path metadataFileName_def by (rule refl)
  have b: "extension_of (''.'' @ n @ ''.ocr-processed'') = ''ocr-processed''"
    unfolding m by (rule ext_sidecar)
  have c: "toLowerCase (extension_of (''.'' @ n @ ''.ocr-processed'')) \<notin> set supportedExtensions"
    unfolding b by (rule sidecar_ext_unsupported)
  have d: "\<not> isSupportedFile_utils (''.'' @ n @ ''.ocr-processed'')"
    unfolding m by (rule utils_sidecar)
  have e: "\<not> isSupportedFile sidecar \<and> \<not> shouldProcess settings v sidecar"
    if "name sidecar = ''.'' @ n @ ''.ocr-processed''"
      and "extension sidecar = extension_of (name sidecar)"
  proof -
    from that c have "\<not> isSupportedFile sidecar"
      by (simp add: isSupportedFile_def)
    then show ?thesis by (simp add: shouldProcess_eq)
  qed
  from a b c d e show ?thesis by blast
qed

theorem sidecar_never_processed_witness:
  "name scan_png_record = ''.'' @ ''scan.PNG'' @ ''.ocr-processed'' \<and>
   extension scan_png_record = extension_of (name scan_png_record) \<and>
   \<not> shouldProcess inbox_settings Map.empty scan_png_record"
proof -
  have a: "name scan_png_record = ''.'' @ ''scan.PNG'' @ ''.ocr-processed''"
    by (simp add: scan_png_record_def)
  have "extension_of (name scan_png_record) = ''ocr-processed''"
    unfolding a using ext_sidecar [of "''scan.PNG''"] by (simp only: metadataFileName_def)
  then have b: "extension scan_png_record = extension_of (name scan_png_record)"
    by (simp add: scan_png_record_def)
  from sidecar_never_processed
         [where n = "''scan.PNG''" and sidecar = scan_png_record
            and settings = inbox_settings and v = Map.empty] a b
  show ?thesis by blast
qed

text \<open>
  Claim C4. Let \<open>f\<close> pass the checks of the settings, the folder and the extension, and let
  \<open>markAsProcessed\<close> write a success record for it without logging a failure. Then
  \<open>shouldProcess\<close> rejects \<open>f\<close>; and for \<open>f\<close> with a new \<open>stat\<close> of a valid size it
  answers true exactly when the fingerprint differs from the recorded one, which is exactly
  when the modification time or the size differs.
\<close>

theorem success_record_idempotence:
  "enableAutoProcessing settings \<and> watchFolder settings \<noteq> '''' \<and>
   isInWatchFolder settings f \<and> isSupportedFile f \<and> validateFileSize (f\<lparr>stat := s\<rparr>) \<and>
   markAsProcessed io now v f StatusSuccess None = (v', []) \<longrightarrow>
     \<not> shouldProcess settings v' f \<and>
     (shouldProcess settings v' (f\<lparr>stat := s\<rparr>) \<longleftrightarrow>
        getFileHash (f\<lparr>stat := s\<rparr>) \<noteq> getFileHash f) \<and>
     (getFileHash (f\<lparr>stat := s\<rparr>) = getFileHash f \<longleftrightarrow>
        mtime s = mtime (stat f) \<and> size_bytes s = size_bytes (stat f))"
proof (intro impI, elim conjE)
  assume el: "enableAutoProcessing settings" "watchFolder settings \<noteq> ''''"
      "isInWatchFolder settings f" "isSupportedFile f" "validateFileSize (f\<lparr>stat := s\<rparr>)"
    and w: "markAsProcessed io now v f StatusSuccess None = (v', [])"
  note v' = markAsProcessed_written [OF w]
  have a: "isProcessed v' f"
    unfolding v' by (simp add: isProcessed_after_success)
  have b: "isProcessed v' (f\<lparr>stat := s\<rparr>) \<longleftrightarrow> getFileHash (f\<lparr>stat := s\<rparr>) = getFileHash f"
    unfolding v' by (rule isProcessed_after_success) (rule stat_update_same)
  have c: "getFileHash (f\<lparr>stat := s\<rparr>) = getFileHash f \<longleftrightarrow>
        mtime s = mtime (stat f) \<and> size_bytes s = size_bytes (stat f)"
    by (simp add: getFileHash_eq_iff)
  from a b c el show "\<not> shouldProcess settings v' f \<and>
     (shouldProcess settings v' (f\<lparr>stat := s\<rparr>) \<longleftrightarrow>
        getFileHash (f\<lparr>stat := s\<rparr>) \<noteq> getFileHash f) \<and>
     (getFileHash (f\<lparr>stat := s\<rparr>) = getFileHash f \<longleftrightarrow>
        mtime s = mtime (stat f) \<and> size_bytes s = size_bytes (stat f))"
    by (simp add: shouldProcess_eq stat_update_same)
qed

lemma markAsProcessed_fresh:
  "markAsProcessed None now Map.empty f st msg =
     ([getMetadataFilePath f \<mapsto>
         FileEntry (stringify \<lparr>processedAt = now, fileHash = getFileHash f, status = st,
                               errorMessage = msg\<rparr>)], [])"
  by (simp add: markAsProcessed_def vault_create_def Let_def)

theorem success_record_idempotence_witness:
  "snd (markAsProcessed None 1713000 Map.empty scan_png StatusSuccess None) = [] \<and>
   \<not> shouldProcess inbox_settings
       (fst (markAsProcessed None 1713000 Map.empty scan_png StatusSuccess None)) scan_png \<and>
   shouldProcess inbox_settings
       (fst (markAsProcessed None 1713000 Map.empty scan_png StatusSuccess None))
       (scan_png\<lparr>stat := \<lparr>mtime = 1800, size_bytes = 2048\<rparr>\<rparr>)"
proof -
  let ?s = "\<lparr>mtime = 1800, size_bytes = 2048\<rparr>"
  let ?v' = "[getMetadataFilePath scan_png \<mapsto>
         FileEntry (stringify \<lparr>processedAt = 1713000, fileHash = getFileHash scan_png,
                               status = StatusSuccess, errorMessage = None\<rparr>)]"
  have w: "markAsProcessed None 1713000 Map.empty scan_png StatusSuccess None = (?v', [])"
    by (rule markAsProcessed_fresh)
  have sz: "validateFileSize (scan_png\<lparr>stat := ?s\<rparr>)"
    by (simp add: validateFileSize_def)
  have ne: "\<not> (mtime ?s = mtime (stat scan_png) \<and> size_bytes ?s = size_bytes (stat scan_png))"
    by (simp add: scan_png_def)
  from success_record_idempotence
         [where settings = inbox_settings and f = scan_png and s = ?s and io = None
            and now = 1713000 and v = Map.empty and v' = ?v']
       scan_png_eligible sz w ne
  have "\<not> shouldProcess inbox_settings ?v' scan_png \<and>
        shouldProcess inbox_settings ?v' (scan_png\<lparr>stat := ?s\<rparr>)"
    by blast
  then show ?thesis
    unfolding w by simp
qed

section \<open>Properties of the remote client\<close>

lemma still_processing_keeps: "still_processing remote k \<Longrightarrow> keeps_polling remote k"
  by (auto simp: still_processing_def keeps_polling_def split: sum.splits)

lemma poll_loop_continue:
  "attempts < maxAttempts \<Longrightarrow> keeps_polling remote attempts \<Longrightarrow>
   poll_loop remote attempts now polled
     = poll_loop remote (attempts + 1) (now + 2000) (polled @ [now + 2000])"
  by (subst poll_loop.simps) (auto simp: keeps_polling_def split: sum.splits)

lemma poll_loop_skip:
  "a + m \<le> maxAttempts \<Longrightarrow> \<forall>k. a \<le> k \<and> k < a + m \<longrightarrow> keeps_polling remote k \<Longrightarrow>
   poll_loop remote a now polled
     = poll_loop remote (a + m) (now + 2000 * m)
         (polled @ map (\<lambda>i. now + 2000 * (i + 1)) [0..<m])"
proof (induction m arbitrary: a now polled)
  case 0
  then show ?case by simp
next
  case (Suc m)
  from Suc.prems have a: "a < maxAttempts" and s: "keeps_polling remote a"
    by auto
  have "poll_loop remote a now polled
      = poll_loop remote (a + 1) (now + 2000) (polled @ [now + 2000])"
    by (rule poll_loop_continue [OF a s])
  also have "\<dots> = poll_loop remote (a + 1 + m) (now + 2000 + 2000 * m)
         ((polled @ [now + 2000]) @ map (\<lambda>i. now + 2000 + 2000 * (i + 1)) [0..<m])"
    using Suc.prems by (intro Suc.IH) auto
  also have "(polled @ [now + 2000]) @ map (\<lambda>i. now + 2000 + 2000 * (i + 1)) [0..<m]
      = polled @ map (\<lambda>i. now + 2000 * (i + 1)) [0..<Suc m]"
    by (simp add: map_upt_Suc del: upt_Suc)
  finally show ?case by (simp add: algebra_simps)
qed

lemma poll_loop_from_start:
  "n \<le> maxAttempts \<Longrightarrow> \<forall>k<n. keeps_polling remote k \<Longrightarrow>
   poll_loop remote 0 0 [] = poll_loop remote n (2000 * n) (poll_times n)"
  using poll_loop_skip [of 0 n remote 0 "[]"] by (simp add: poll_times_def)

lemma poll_times_Suc: "poll_times n @ [2000 * n + 2000] = poll_times (n + 1)"
  by (simp add: poll_times_def)

text \<open>
  Claim C3. After a successful upload: when each of the 60 status checks reports
  \<open>processing\<close> (or, more generally, any status other than \<open>processed\<close> and \<open>failed\<close>),
  \<open>processDocument\<close> raises \<open>Processing timeout\<close> after exactly 60 checks, made 2000 ms,
  4000 ms, ..., 120000 ms after the upload, that is 2 seconds apart. When the \<open>n\<close>-th check
  (\<open>n < 60\<close>) is reached, every check before it having succeeded with a status other than
  \<open>processed\<close> and \<open>failed\<close>, and it reports \<open>processed\<close>, the loop stops after
  \<open>n + 1\<close> checks and returns what \<open>getResult\<close> gives; when it reports \<open>failed\<close>, the
  loop stops there and raises the error text of the server, or \<open>Processing failed\<close> when
  that text is absent or empty.
\<close>

theorem bounded_polling:
  "uploadDocument (upload_reply remote) = Inr documentId \<longrightarrow>
     ((\<forall>k<60. still_processing remote k) \<longrightarrow>
        processDocument remote = (Inl (Error ''Processing timeout''), poll_times 60) \<and>
        length (poll_times 60) = 60) \<and>
     ((\<forall>k<60. keeps_polling remote k) \<longrightarrow>
        processDocument remote = (Inl (Error ''Processing timeout''), poll_times 60)) \<and>
     (n < 60 \<and> (\<forall>k<n. keeps_polling remote k) \<and>
      checkStatus (status_reply remote n) = Inr st \<and> doc_status st = ''processed'' \<longrightarrow>
        processDocument remote = (getResult (result_reply remote), poll_times (n + 1))) \<and>
     (n < 60 \<and> (\<forall>k<n. keeps_polling remote k) \<and>
      checkStatus (status_reply remote n) = Inr st \<and> doc_status st = ''failed'' \<longrightarrow>
        processDocument remote =
          (Inl (Error (case doc_error st of
                         None \<Rightarrow> ''Processing failed''
                       | Some m \<Rightarrow> if m \<noteq> '''' then m else ''Processing failed'')),
           poll_times (n + 1)))"
proof
  assume u: "uploadDocument (upload_reply remote) = Inr documentId"
  then have p: "processDocument remote = poll_loop remote 0 0 []"
    by (simp add: processDocument_def)
  have t: "processDocument remote = (Inl (Error ''Processing timeout''), poll_times 60)"
    if "\<forall>k<60. keeps_polling remote k"
  proof -
    from that have "poll_loop remote 0 0 [] = poll_loop remote 60 (2000 * 60) (poll_times 60)"
      by (intro poll_loop_from_start) (simp_all add: maxAttempts_def)
    also have "\<dots> = (Inl (Error ''Processing timeout''), poll_times 60)"
      by (subst poll_loop.simps) (simp add: maxAttempts_def)
    finally show ?thesis
      using p by simp
  qed
  have len: "length (poll_times 60) = 60"
    by (simp add: poll_times_def)
  have t': "processDocument remote = (Inl (Error ''Processing timeout''), poll_times 60) \<and>
        length (poll_times 60) = 60"
    if "\<forall>k<60. still_processing remote k"
    using that t len by (simp add: still_processing_keeps)
  have s: "poll_loop remote 0 0 [] = poll_loop remote n (2000 * n) (poll_times n)"
    if "n < 60" "\<forall>k<n. keeps_polling remote k"
    using that by (intro poll_loop_from_start) (simp_all add: maxAttempts_def)
  have d: "processDocument remote = (getResult (result_reply remote), poll_times (n + 1))"
    if "n < 60" "\<forall>k<n. keeps_polling remote k"
      "checkStatus (status_reply remote n) = Inr st" "doc_status st = ''processed''"
  proof -
    have "poll_loop remote n (2000 * n) (poll_times n)
        = (getResult (result_reply remote), poll_times n @ [2000 * n + 2000])"
      using that by (subst poll_loop.simps) (simp add: maxAttempts_def)
    with s [OF that(1,2)] p show ?thesis
      by (simp only: poll_times_Suc)
  qed
  have f: "processDocument remote =
          (Inl (Error (case doc_error st of
                         None \<Rightarrow> ''Processing failed''
                       | Some m \<Rightarrow> if m \<noteq> '''' then m else ''Processing failed'')),
           poll_times (n + 1))"
    if "n < 60" "\<forall>k<n. keeps_polling remote k"
      "checkStatus (status_reply remote n) = Inr st" "doc_status st = ''failed''"
  proof -
    have "poll_loop remote n (2000 * n) (poll_times n)
        = (Inl (Error (failure_message (doc_error st))), poll_times n @ [2000 * n + 2000])"
      using that by (subst poll_loop.simps) (simp add: maxAttempts_def)
    with s [OF that(1,2)] p show ?thesis
      by (simp only: poll_times_Suc failure_message_def)
  qed
  from t' t d f show "((\<forall>k<60. still_processing remote k) \<longrightarrow>
        processDocument remote = (Inl (Error ''Processing timeout''), poll_times 60) \<and>
        length (poll_times 60) = 60) \<and>
     ((\<forall>k<60. keeps_polling remote k) \<longrightarrow>
        processDocument remote = (Inl (Error ''Processing timeout''), poll_times 60)) \<and>
     (n < 60 \<and> (\<forall>k<n. keeps_polling remote k) \<and>
      checkStatus (status_reply remote n) = Inr st \<and> doc_status st = ''processed'' \<longrightarrow>
        processDocument remote = (getResult (result_reply remote), poll_times (n + 1))) \<and>
     (n < 60 \<and> (\<forall>k<n. keeps_polling remote k) \<and>
      checkStatus (status_reply remote n) = Inr st \<and> doc_status st = ''failed'' \<longrightarrow>
        processDocument remote =
          (Inl (Error (case doc_error st of
                         None \<Rightarrow> ''Processing failed''
                       | Some m \<Rightarrow> if m \<noteq> '''' then m else ''Processing failed'')),
           poll_times (n + 1)))"
    by blast
qed

lemma upload_created: "uploadDocument created = Inr ''doc-1''"
  by (simp add: uploadDocument_def created_def)

lemma check_reports: "checkStatus (reports s e)
    = Inr \<lparr>doc_id = ''doc-1'', doc_status = s, pages = None, doc_error = e\<rparr>"
  by (simp add: checkStatus_def reports_def)

lemma poll_times_small:
  "poll_times (1 + 1) = [2000, 4000]" "poll_times (2 + 1) = [2000, 4000, 6000]"
  by code_simp+

theorem bounded_polling_witness:
  "processDocument stuck_job = (Inl (Error ''Processing timeout''), poll_times 60) \<and>
   processDocument finishing_job = (Inr transcript, [2000, 4000, 6000]) \<and>
   processDocument failing_job = (Inl (Error ''Unreadable scan''), [2000, 4000])"
proof -
  let ?done = "\<lparr>doc_id = ''doc-1'', doc_status = ''processed'', pages = None, doc_error = None\<rparr>"
  let ?failed = "\<lparr>doc_id = ''doc-1'', doc_status = ''failed'', pages = None,
                  doc_error = Some ''Unreadable scan''\<rparr>"
  have u: "uploadDocument (upload_reply stuck_job) = Inr ''doc-1''"
    "uploadDocument (upload_reply finishing_job) = Inr ''doc-1''"
    "uploadDocument (upload_reply failing_job) = Inr ''doc-1''"
    by (simp_all add: stuck_job_def finishing_job_def failing_job_def upload_created)
  have a: "\<forall>k<60. still_processing stuck_job k"
    by (simp add: still_processing_def stuck_job_def check_reports)
  have b: "\<forall>k<2. keeps_polling finishing_job k"
    by (simp add: keeps_polling_def finishing_job_def check_reports)
  have b': "checkStatus (status_reply finishing_job 2) = Inr ?done"
    by (simp add: finishing_job_def check_reports)
  have c: "\<forall>k<1. keeps_polling failing_job k"
    by (simp add: keeps_polling_def failing_job_def check_reports)
  have c': "checkStatus (status_reply failing_job 1) = Inr ?failed"
    by (simp add: failing_job_def check_reports)
  have g: "getResult (result_reply finishing_job) = Inr transcript"
    by (simp add: getResult_def finishing_job_def transcript_def)
  from bounded_polling [where remote = stuck_job and documentId = "''doc-1''"] u(1) a
  have 1: "processDocument stuck_job = (Inl (Error ''Processing timeout''), poll_times 60)"
    by blast
  have "(2::nat) < 60" and d: "doc_status ?done = ''processed''" by simp_all
  with bounded_polling [where remote = finishing_job and documentId = "''doc-1''" and n = 2
         and st = ?done] u(2) b b'
  have "processDocument finishing_job = (getResult (result_reply finishing_job), poll_times (2 + 1))"
    by blast
  then have 2: "processDocument finishing_job = (Inr transcript, [2000, 4000, 6000])"
    by (simp only: g poll_times_small)
  have "(1::nat) < 60" and f: "doc_status ?failed = ''failed''" by simp_all
  with bounded_polling [where remote = failing_job and documentId = "''doc-1''" and n = 1
         and st = ?failed] u(3) c c'
  have "processDocument failing_job =
          (Inl (Error (case doc_error ?failed of
                         None \<Rightarrow> ''Processing failed''
                       | Some m \<Rightarrow> if m \<noteq> '''' then m else ''Processing failed'')),
           poll_times (1 + 1))"
    by blast
  moreover have "(case doc_error ?failed of
                         None \<Rightarrow> ''Processing failed''
                       | Some m \<Rightarrow> if m \<noteq> '''' then m else ''Processing failed'')
                   = ''Unreadable scan''"
    by simp
  ultimately have 3: "processDocument failing_job = (Inl (Error ''Unreadable scan''), [2000, 4000])"
    by (simp only: poll_times_small)
  from 1 2 3 show ?thesis by blast
qed

text \<open>
  Claim C6, where it fails as stated. A reply with status 200, a 2xx status that carries a
  job identifier, is not accepted: only 201 is.
\<close>

theorem upload_200_rejected:
  "(200::nat) \<le> 200 \<and> (200::nat) < 300 \<and>
   uploadDocument ok_200 = Inl (Error ''Upload failed: 200'') \<and>
   uploadDocument ok_200 \<noteq> Inr ''doc-1''"
proof -
  have "dec 200 = ''200''" by code_simp
  then show ?thesis
    by (simp add: uploadDocument_def ok_200_def)
qed

text \<open>
  Claim C6, amended. A reply with status 401 raises \<open>Invalid API key\<close>, 403 raises
  \<open>Insufficient credits\<close>, 413 raises \<open>File too large\<close>, 415 raises
  \<open>Unsupported file type\<close>, every other status that is not 201 (the other 2xx statuses
  too) raises \<open>Upload failed\<close> with the status, and status 201 returns the identifier of
  the reply. A request that rejects passes its error on.
\<close>

theorem upload_status_mapping:
  "uploadDocument (Inl e) = Inl e \<and>
   uploadDocument (Inr response) =
     (if http_status response = 401 then Inl (Error ''Invalid API key'')
      else if http_status response = 403 then Inl (Error ''Insufficient credits'')
      else if http_status response = 413 then Inl (Error ''File too large (max 20MB)'')
      else if http_status response = 415 then Inl (Error ''Unsupported file type'')
      else if http_status response \<noteq> 201
        then Inl (Error (''Upload failed: '' @ dec (http_status response)))
      else Inr (upload_id (body response)))"
  by (simp add: uploadDocument_def)

theorem upload_status_mapping_witness:
  "uploadDocument created = Inr ''doc-1'' \<and>
   uploadDocument (Inr \<lparr>http_status = 403,
      body = \<lparr>upload_id = '''', upload_status = '''', created_at = '''', updated_at = ''''\<rparr>\<rparr>)
     = Inl (Error ''Insufficient credits'')"
  using upload_status_mapping
          [where response = "\<lparr>http_status = 201,
             body = \<lparr>upload_id = ''doc-1'', upload_status = ''new'', created_at = '''',
                     updated_at = ''''\<rparr>\<rparr>"]
        upload_status_mapping
          [where response = "\<lparr>http_status = 403,
             body = \<lparr>upload_id = '''', upload_status = '''', created_at = '''',
                     updated_at = ''''\<rparr>\<rparr>"]
  by (simp add: created_def)

end
